theory Spec2Isabelle
  imports Main
begin

section \<open>Python values used by TC.py\<close>

text \<open>
  The program is a single Python file, \<^verbatim>\<open>TC.py\<close>. A Python \<^verbatim>\<open>str\<close> is a
  \<^typ>\<open>string\<close>; iterating over it, or calling \<^verbatim>\<open>list\<close> on it, yields its
  characters. Python integers are unbounded, so they are \<^typ>\<open>int\<close>. The only
  exceptions the modelled code can raise are the two below.
\<close>

datatype py_error = IndexError | ValueError

text \<open>
  \<^verbatim>\<open>xs[i]\<close> and \<^verbatim>\<open>xs[i] = v\<close> on a Python list or string: a negative index counts
  from the end, and an index outside the sequence raises \<^verbatim>\<open>IndexError\<close>.
\<close>

definition py_getitem :: "'a list \<Rightarrow> int \<Rightarrow> py_error + 'a" where
  "py_getitem xs i =
     (if 0 \<le> i \<and> i < int (length xs) then Inr (xs ! nat i)
      else if i < 0 \<and> - int (length xs) \<le> i then Inr (xs ! nat (int (length xs) + i))
      else Inl IndexError)"

definition py_setitem :: "'a list \<Rightarrow> int \<Rightarrow> 'a \<Rightarrow> py_error + 'a list" where
  "py_setitem xs i v =
     (if 0 \<le> i \<and> i < int (length xs) then Inr (xs[nat i := v])
      else if i < 0 \<and> - int (length xs) \<le> i then Inr (xs[nat (int (length xs) + i) := v])
      else Inl IndexError)"

text \<open>\<^verbatim>\<open>s.rstrip('_')\<close>: the string without its trailing run of the given character.\<close>

definition rstrip :: "char \<Rightarrow> string \<Rightarrow> string" where
  "rstrip c s = rev (dropWhile (\<lambda>x. x = c) (rev s))"

text \<open>\<^verbatim>\<open>s.index(c)\<close> for a one-character \<^verbatim>\<open>c\<close>: the first position of the
  character, \<^verbatim>\<open>ValueError\<close> when it does not occur.\<close>

fun str_index :: "string \<Rightarrow> char \<Rightarrow> py_error + int" where
  "str_index [] c = Inl ValueError"
| "str_index (x # xs) c =
     (if x = c then Inr 0
      else (case str_index xs c of Inl e \<Rightarrow> Inl e | Inr i \<Rightarrow> Inr (i + 1)))"

section \<open>The Turing machine engine\<close>

text \<open>
  \<^verbatim>\<open>class TuringMachine\<close>: one object holds the fixed specification and the
  mutable run state. States and tape symbols are Python strings; the tape is a Python
  list of symbols; the transition table is a dictionary from \<^verbatim>\<open>(state, symbol)\<close>
  to \<^verbatim>\<open>(new_state, write_symbol, direction)\<close>, the direction being compared with
  the strings \<^verbatim>\<open>'R'\<close> and \<^verbatim>\<open>'L'\<close>.
\<close>

type_synonym state = string
type_synonym symbol = string

record TuringMachine =
  states :: "state set"
  input_alphabet :: "symbol set"
  tape_alphabet :: "symbol set"
  initial_state :: state
  accept_states :: "state set"
  transitions :: "state \<times> symbol \<rightharpoonup> state \<times> symbol \<times> string"
  tape :: "symbol list"
  head_position :: int
  current_state :: state

text \<open>\<^verbatim>\<open>__init__\<close>: the tape starts empty, the head at 0, in the initial state.\<close>

definition init ::
  "state set \<Rightarrow> symbol set \<Rightarrow> symbol set \<Rightarrow> state \<Rightarrow> state set \<Rightarrow>
   (state \<times> symbol \<rightharpoonup> state \<times> symbol \<times> string) \<Rightarrow> TuringMachine" where
  "init sts ia ta q0 acc tr =
     \<lparr>states = sts, input_alphabet = ia, tape_alphabet = ta, initial_state = q0,
      accept_states = acc, transitions = tr, tape = [], head_position = 0,
      current_state = q0\<rparr>"

text \<open>\<^verbatim>\<open>load_tape\<close>: \<^verbatim>\<open>list(input_string) + ['_']\<close>, head 0, initial state.\<close>

definition load_tape :: "TuringMachine \<Rightarrow> string \<Rightarrow> TuringMachine" where
  "load_tape m input_string =
     m\<lparr>tape := map (\<lambda>c. [c]) input_string @ [''_''],
       head_position := 0,
       current_state := initial_state m\<rparr>"

text \<open>The padding loop of \<^verbatim>\<open>step\<close>:
  \<^verbatim>\<open>while self.head_position >= len(self.tape): self.tape.append('_')\<close>.\<close>

function pad_tape :: "int \<Rightarrow> symbol list \<Rightarrow> symbol list" where
  "pad_tape h t = (if h \<ge> int (length t) then pad_tape h (t @ [''_'']) else t)"
  by pat_completeness auto
termination
  by (relation "measure (\<lambda>(h, t). nat (h + 1 - int (length t)))") auto

declare pad_tape.simps [simp del]

text \<open>
  \<^verbatim>\<open>step\<close>. The result is the returned boolean together with the machine after the
  call; an exception is \<open>Inl\<close>. The branches follow the source in order: the accept
  test, the padding loop, the read, the table lookup, the write, the state change,
  the move, and the repair of a negative head.
\<close>

definition step :: "TuringMachine \<Rightarrow> py_error + (bool \<times> TuringMachine)" where
  "step m =
     (if current_state m \<in> accept_states m then Inr (False, m)
      else
        let m1 = m\<lparr>tape := pad_tape (head_position m) (tape m)\<rparr> in
        (case py_getitem (tape m1) (head_position m1) of
           Inl e \<Rightarrow> Inl e
         | Inr current_symbol \<Rightarrow>
             (case transitions m1 (current_state m1, current_symbol) of
                None \<Rightarrow> Inr (False, m1)
              | Some (new_state, write_symbol, direction) \<Rightarrow>
                  (case py_setitem (tape m1) (head_position m1) write_symbol of
                     Inl e \<Rightarrow> Inl e
                   | Inr t2 \<Rightarrow>
                       let m2 = m1\<lparr>tape := t2, current_state := new_state\<rparr>;
                           m3 = (if direction = ''R''
                                 then m2\<lparr>head_position := head_position m2 + 1\<rparr>
                                 else if direction = ''L''
                                 then m2\<lparr>head_position := head_position m2 - 1\<rparr>
                                 else m2);
                           m4 = (if head_position m3 < 0
                                 then m3\<lparr>tape := ''_'' # tape m3, head_position := 0\<rparr>
                                 else m3)
                       in Inr (True, m4)))))"

text \<open>\<^verbatim>\<open>get_tape_content\<close>: \<^verbatim>\<open>''.join(self.tape).rstrip('_')\<close>.\<close>

definition get_tape_content :: "TuringMachine \<Rightarrow> string" where
  "get_tape_content m = rstrip CHR ''_'' (concat (tape m))"

text \<open>
  The loop of \<^verbatim>\<open>run\<close>: \<^verbatim>\<open>while steps < max_steps and self.step(): steps += 1\<close>.
  \<open>steps\<close> is the local variable of the source. \<open>calls\<close> is not in the source: it
  counts the invocations of \<^verbatim>\<open>step\<close>, which the loop makes only when
  \<^verbatim>\<open>steps < max_steps\<close> holds (\<^verbatim>\<open>and\<close> short-circuits). The loop returns both
  counters and the machine as the last call left it.
\<close>

function run_loop ::
  "int \<Rightarrow> int \<Rightarrow> nat \<Rightarrow> TuringMachine \<Rightarrow> py_error + (int \<times> nat \<times> TuringMachine)" where
  "run_loop max_steps steps calls m =
     (if steps < max_steps then
        (case step m of
           Inl e \<Rightarrow> Inl e
         | Inr (continue, m') \<Rightarrow>
             if continue then run_loop max_steps (steps + 1) (calls + 1) m'
             else Inr (steps, calls + 1, m'))
      else Inr (steps, calls, m))"
  by pat_completeness auto
termination
  by (relation "measure (\<lambda>(max_steps, steps, calls, m). nat (max_steps - steps))") auto

declare run_loop.simps [simp del]

text \<open>\<^verbatim>\<open>run\<close>: the returned string and the machine after the call.\<close>

definition run :: "TuringMachine \<Rightarrow> int \<Rightarrow> py_error + (string \<times> TuringMachine)" where
  "run m max_steps =
     (case run_loop max_steps 0 0 m of
        Inl e \<Rightarrow> Inl e
      | Inr (steps, calls, m') \<Rightarrow> Inr (rstrip CHR ''_'' (concat (tape m')), m'))"

section \<open>The cipher functions\<close>

text \<open>
  \<^verbatim>\<open>caesar_encrypt\<close> and \<^verbatim>\<open>caesar_decrypt\<close> bind the same local
  \<^verbatim>\<open>alphabet\<close>. Their \<^verbatim>\<open>for char in message\<close> loops append one character to
  \<^verbatim>\<open>result\<close> per iteration and join the list at the end; the loop functions carry
  \<open>result\<close> as a string, to which each branch appends its character.
  \<^verbatim>\<open>char in alphabet\<close> is membership of a single character. Python's \<^verbatim>\<open>%\<close>
  with the positive modulus 26 is \<open>mod\<close> on \<^typ>\<open>int\<close>.
\<close>

definition alphabet :: string where
  "alphabet = ''ABCDEFGHIJKLMNOPQRSTUVWXYZ''"

fun caesar_encrypt_loop :: "string \<Rightarrow> int \<Rightarrow> string \<Rightarrow> py_error + string" where
  "caesar_encrypt_loop [] shift result = Inr result"
| "caesar_encrypt_loop (char # message) shift result =
     (if char = CHR '' '' then caesar_encrypt_loop message shift (result @ '' '')
      else if char \<in> set alphabet then
        (case str_index alphabet char of
           Inl e \<Rightarrow> Inl e
         | Inr pos \<Rightarrow>
             (case py_getitem alphabet ((pos + shift) mod 26) of
                Inl e \<Rightarrow> Inl e
              | Inr c \<Rightarrow> caesar_encrypt_loop message shift (result @ [c])))
      else caesar_encrypt_loop message shift (result @ [char]))"

definition caesar_encrypt :: "string \<Rightarrow> int \<Rightarrow> py_error + string" where
  "caesar_encrypt message shift = caesar_encrypt_loop message shift []"

fun caesar_decrypt_loop :: "string \<Rightarrow> int \<Rightarrow> string \<Rightarrow> py_error + string" where
  "caesar_decrypt_loop [] shift result = Inr result"
| "caesar_decrypt_loop (char # message) shift result =
     (if char = CHR '' '' then caesar_decrypt_loop message shift (result @ '' '')
      else if char \<in> set alphabet then
        (case str_index alphabet char of
           Inl e \<Rightarrow> Inl e
         | Inr pos \<Rightarrow>
             (case py_getitem alphabet ((pos - shift) mod 26) of
                Inl e \<Rightarrow> Inl e
              | Inr c \<Rightarrow> caesar_decrypt_loop message shift (result @ [c])))
      else caesar_decrypt_loop message shift (result @ [char]))"

definition caesar_decrypt :: "string \<Rightarrow> int \<Rightarrow> py_error + string" where
  "caesar_decrypt message shift = caesar_decrypt_loop message shift []"

section \<open>Notions of the specification\<close>

text \<open>
  The symbol under the head after right-padding with blanks: the tape cell at the
  head when there is one, a blank otherwise.
\<close>

definition symbol_under_head :: "TuringMachine \<Rightarrow> symbol" where
  "symbol_under_head m =
     (if head_position m < int (length (tape m)) then tape m ! nat (head_position m)
      else ''_'')"

text \<open>
  Applying one table entry \<open>(new_state, write_symbol, direction)\<close> to a machine whose
  head is not negative: the symbol is written at the head (on the tape padded up to
  the head), the state changes, and the head moves; a move to the left from index 0
  puts one blank in front of the tape and leaves the head at 0. A direction that is
  neither \<^verbatim>\<open>'R'\<close> nor \<^verbatim>\<open>'L'\<close> moves nothing.
\<close>

definition apply_rule :: "TuringMachine \<Rightarrow> state \<times> symbol \<times> string \<Rightarrow> TuringMachine" where
  "apply_rule m r =
     (case r of (new_state, write_symbol, direction) \<Rightarrow>
        let h = head_position m;
            t = (pad_tape h (tape m))[nat h := write_symbol]
        in m\<lparr>tape := (if direction = ''L'' \<and> h = 0 then ''_'' # t else t),
             head_position := (if direction = ''R'' then h + 1
                               else if direction = ''L'' \<and> 0 < h then h - 1
                               else if direction = ''L'' then 0 else h),
             current_state := new_state\<rparr>)"

text \<open>A caller making \<open>k\<close> calls of \<^verbatim>\<open>step\<close> in a row, whatever each returns.\<close>

fun call_step_n :: "nat \<Rightarrow> TuringMachine \<Rightarrow> py_error + TuringMachine" where
  "call_step_n 0 m = Inr m"
| "call_step_n (Suc k) m =
     (case step m of Inl e \<Rightarrow> Inl e | Inr (b, m') \<Rightarrow> call_step_n k m')"

text \<open>Two machine objects built from the same specification, whatever their run
  state is.\<close>

definition same_specification :: "TuringMachine \<Rightarrow> TuringMachine \<Rightarrow> bool" where
  "same_specification m1 m2 \<longleftrightarrow>
     states m1 = states m2 \<and> input_alphabet m1 = input_alphabet m2 \<and>
     tape_alphabet m1 = tape_alphabet m2 \<and> initial_state m1 = initial_state m2 \<and>
     accept_states m1 = accept_states m2 \<and> transitions m1 = transitions m2"

text \<open>The machines a caller can have: built by the constructor and then passed through
  \<^verbatim>\<open>load_tape\<close>, \<^verbatim>\<open>step\<close> and \<^verbatim>\<open>run\<close> in any order.\<close>

inductive reachable :: "TuringMachine \<Rightarrow> bool" where
  by_init: "reachable (init sts ia ta q0 acc tr)"
| by_load_tape: "reachable m \<Longrightarrow> reachable (load_tape m s)"
| by_step: "reachable m \<Longrightarrow> step m = Inr (b, m') \<Longrightarrow> reachable m'"
| by_run: "reachable m \<Longrightarrow> run m n = Inr (out, m') \<Longrightarrow> reachable m'"

subsection \<open>Machines of the scenarios\<close>

text \<open>Scenario B: the initial state is the only accept state, the table is empty.\<close>

definition scenario_B :: TuringMachine where
  "scenario_B =
     init {''q0''} {''X'', ''Y'', ''Z''} {''X'', ''Y'', ''Z'', ''_''} ''q0'' {''q0''} Map.empty"

text \<open>Scenario C: the single rule \<^verbatim>\<open>(q0, 'A') -> (q0, 'A', 'R')\<close>, no accept
  state; the state set and the alphabets are left open.\<close>

definition scenario_C :: "state set \<Rightarrow> symbol set \<Rightarrow> symbol set \<Rightarrow> TuringMachine" where
  "scenario_C sts ia ta =
     init sts ia ta ''q0'' {} [(''q0'', ''A'') \<mapsto> (''q0'', ''A'', ''R'')]"

text \<open>A machine whose only rule rewrites a blank and moves in direction \<open>d\<close>, for
  ever: with \<^verbatim>\<open>'L'\<close> it is scenario D, with \<^verbatim>\<open>'R'\<close> it never halts either.\<close>

definition blank_mover :: "string \<Rightarrow> TuringMachine" where
  "blank_mover d =
     init {''q0''} {} {''_''} ''q0'' {} [(''q0'', ''_'') \<mapsto> (''q0'', ''_'', d)]"

text \<open>The closing rule of the machine description that \<^verbatim>\<open>save_machine_specification\<close>
  writes, \<^verbatim>\<open>(q_scan, '_') -> (q_accept, '_', 'R')\<close>, as a machine of its own.\<close>

definition finalizer :: TuringMachine where
  "finalizer =
     init {''q_scan'', ''q_accept''} {} {''_''} ''q_scan'' {''q_accept''}
       [(''q_scan'', ''_'') \<mapsto> (''q_accept'', ''_'', ''R'')]"

text \<open>A machine that overwrites an \<^verbatim>\<open>'A'\<close> with \<^verbatim>\<open>'B'\<close>, moves left and stops.\<close>

definition left_writer :: TuringMachine where
  "left_writer =
     init {''q0'', ''q1''} {''A'', ''C''} {''A'', ''B'', ''C'', ''_''} ''q0'' {}
       [(''q0'', ''A'') \<mapsto> (''q1'', ''B'', ''L'')]"

section \<open>Auxiliary facts\<close>

lemma pad_tape_eq:
  "pad_tape h t = t @ replicate (nat (h + 1 - int (length t))) ''_''"
proof (induction h t rule: pad_tape.induct)
  case (1 h t)
  show ?case
  proof (cases "h \<ge> int (length t)")
    case True
    then have n: "nat (h + 1 - int (length t)) = Suc (nat (h + 1 - int (length (t @ [''_'']))))"
      by simp
    have "pad_tape h t = pad_tape h (t @ [''_''])"
      using True by (simp add: pad_tape.simps [of h t])
    also have "\<dots> = (t @ [''_'']) @ replicate (nat (h + 1 - int (length (t @ [''_''])))) ''_''"
      using "1.IH" [OF True] .
    also have "\<dots> = t @ replicate (nat (h + 1 - int (length t))) ''_''"
      unfolding n by simp
    finally show ?thesis .
  next
    case False
    then show ?thesis by (simp add: pad_tape.simps [of h t])
  qed
qed

lemma length_pad_tape:
  "length (pad_tape h t) = max (length t) (nat (h + 1))"
  by (simp add: pad_tape_eq)

lemma pad_tape_in_range: "0 \<le> h \<Longrightarrow> nat h < length (pad_tape h t)"
  by (simp add: length_pad_tape)

lemma pad_tape_nth:
  "pad_tape h t ! i = (if i < length t then t ! i else ''_'')" if "i < length (pad_tape h t)"
  using that by (auto simp add: pad_tape_eq nth_append)

lemma pad_tape_id: "h < int (length t) \<Longrightarrow> pad_tape h t = t"
  by (simp add: pad_tape.simps [of h t])

lemma pad_tape_read:
  "0 \<le> head_position m \<Longrightarrow>
   pad_tape (head_position m) (tape m) ! nat (head_position m) = symbol_under_head m"
  using pad_tape_in_range [of "head_position m" "tape m"]
  by (auto simp add: pad_tape_nth symbol_under_head_def)

text \<open>With a head that is not negative, \<^verbatim>\<open>step\<close> raises nothing and has three
  outcomes.\<close>

lemma step_cases:
  assumes "0 \<le> head_position m"
  shows "step m =
     (if current_state m \<in> accept_states m then Inr (False, m)
      else (case transitions m (current_state m, symbol_under_head m) of
              None \<Rightarrow> Inr (False, m\<lparr>tape := pad_tape (head_position m) (tape m)\<rparr>)
            | Some r \<Rightarrow> Inr (True, apply_rule m r)))"
proof -
  have "step m =
     (if current_state m \<in> accept_states m then Inr (False, m)
      else (case transitions m (current_state m,
                  pad_tape (head_position m) (tape m) ! nat (head_position m)) of
              None \<Rightarrow> Inr (False, m\<lparr>tape := pad_tape (head_position m) (tape m)\<rparr>)
            | Some r \<Rightarrow> Inr (True, apply_rule m r)))"
    using assms pad_tape_in_range [OF assms, of "tape m"]
    by (auto simp add: step_def py_getitem_def py_setitem_def Let_def apply_rule_def
        split: option.splits prod.splits)
  then show ?thesis
    using pad_tape_read [OF assms] by simp
qed

lemma head_apply_rule: "0 \<le> head_position m \<Longrightarrow> 0 \<le> head_position (apply_rule m r)"
  by (cases r) (simp add: apply_rule_def Let_def)

lemma head_le_apply_rule:
  "0 \<le> head_position m \<Longrightarrow>
   head_position (apply_rule m r) \<le> int (length (tape (apply_rule m r)))"
  using pad_tape_in_range [of "head_position m" "tape m"]
  by (cases r) (auto simp add: apply_rule_def Let_def)

lemma step_total:
  "0 \<le> head_position m \<Longrightarrow> \<exists>b m'. step m = Inr (b, m')"
  by (auto simp add: step_cases split: option.splits)

lemma step_head_nonneg:
  "0 \<le> head_position m \<Longrightarrow> step m = Inr (b, m') \<Longrightarrow> 0 \<le> head_position m'"
  by (auto simp add: step_cases head_apply_rule split: option.splits if_splits)

lemma step_head_le:
  "0 \<le> head_position m \<Longrightarrow> head_position m \<le> int (length (tape m)) \<Longrightarrow>
   step m = Inr (b, m') \<Longrightarrow> head_position m' \<le> int (length (tape m'))"
  using pad_tape_in_range [of "head_position m" "tape m"]
  by (auto simp add: step_cases head_le_apply_rule split: option.splits if_splits)

lemma call_step_n_inv:
  "0 \<le> head_position m \<Longrightarrow> head_position m \<le> int (length (tape m)) \<Longrightarrow>
   \<exists>m'. call_step_n k m = Inr m' \<and> 0 \<le> head_position m' \<and>
        head_position m' \<le> int (length (tape m'))"
proof (induction k arbitrary: m)
  case 0
  then show ?case by simp
next
  case (Suc k)
  from step_total [OF Suc.prems(1)] obtain b m1 where s: "step m = Inr (b, m1)" by blast
  have "0 \<le> head_position m1" "head_position m1 \<le> int (length (tape m1))"
    using step_head_nonneg [OF Suc.prems(1) s] step_head_le [OF Suc.prems s] by simp_all
  from Suc.IH [OF this] show ?case by (simp add: s)
qed

lemma pad_tape_zero: "pad_tape 0 t = (if t = [] then [''_''] else t)"
  by (cases t) (simp_all add: pad_tape_eq)

text \<open>
  The loop of \<^verbatim>\<open>run\<close>, started anywhere: it returns, the head stays at a zero-based
  index, the counter \<open>steps\<close> grows to at most \<open>max_steps\<close>, and \<^verbatim>\<open>step\<close> is called
  once per counted transition and at most once more.
\<close>

lemma run_loop_result:
  assumes "0 \<le> head_position m"
  shows "\<exists>steps' calls' m'. run_loop n steps calls m = Inr (steps', calls', m') \<and>
           0 \<le> head_position m' \<and> steps \<le> steps' \<and> steps' \<le> max steps n \<and>
           int calls' - int calls \<le> max 0 (n - steps) \<and>
           steps' - steps \<le> int calls' - int calls \<and>
           int calls' - int calls \<le> steps' - steps + 1"
  using assms
proof (induction n steps calls m rule: run_loop.induct)
  case (1 n steps calls m)
  show ?case
  proof (cases "steps < n")
    case False
    then show ?thesis
      using "1.prems" by (simp add: run_loop.simps [of n steps calls m])
  next
    case True
    from step_total [OF "1.prems"] obtain b m1 where s: "step m = Inr (b, m1)"
      by blast
    have h1: "0 \<le> head_position m1"
      using step_head_nonneg [OF "1.prems" s] .
    show ?thesis
    proof (cases b)
      case False
      then show ?thesis
        using True s h1 by (simp add: run_loop.simps [of n steps calls m])
    next
      case b: True
      have eq: "run_loop n steps calls m = run_loop n (steps + 1) (calls + 1) m1"
        using True s b by (simp add: run_loop.simps [of n steps calls m])
      from "1.IH" [OF True s refl b h1]
      obtain steps' calls' m' where
        r: "run_loop n (steps + 1) (calls + 1) m1 = Inr (steps', calls', m')"
        and p: "0 \<le> head_position m'" "steps + 1 \<le> steps'" "steps' \<le> max (steps + 1) n"
          "int calls' - int (calls + 1) \<le> max 0 (n - (steps + 1))"
          "steps' - (steps + 1) \<le> int calls' - int (calls + 1)"
          "int calls' - int (calls + 1) \<le> steps' - (steps + 1) + 1"
        by blast
      show ?thesis
        unfolding eq r using p True by simp
    qed
  qed
qed

lemma load_tape_same_specification:
  "same_specification m1 m2 \<Longrightarrow> load_tape m1 s = load_tape m2 s"
  by (cases m1, cases m2) (simp add: load_tape_def same_specification_def)

text \<open>\<^verbatim>\<open>rstrip\<close> removes a run of the character at the end, and all of it.\<close>

lemma rstrip_decomp: "\<exists>k. s = rstrip c s @ replicate k c"
proof -
  define tw where "tw = takeWhile (\<lambda>x. x = c) (rev s)"
  define dw where "dw = dropWhile (\<lambda>x. x = c) (rev s)"
  have "rev s = tw @ dw"
    by (simp add: tw_def dw_def)
  then have "rev (rev s) = rev (tw @ dw)"
    by (rule arg_cong)
  then have split: "s = rev dw @ rev tw"
    by simp
  have "\<forall>x \<in> set tw. x = c"
    unfolding tw_def by (auto dest: set_takeWhileD)
  then have "tw = replicate (length tw) c"
    by (simp add: replicate_length_same)
  then have "rev tw = replicate (length tw) c"
    by (metis rev_replicate)
  with split have "s = rstrip c s @ replicate (length tw) c"
    by (simp add: rstrip_def dw_def)
  then show ?thesis ..
qed

lemma rstrip_last: "rstrip c s = [] \<or> last (rstrip c s) \<noteq> c"
proof (cases "dropWhile (\<lambda>x. x = c) (rev s)")
  case Nil
  then show ?thesis by (simp add: rstrip_def)
next
  case (Cons y ys)
  then have "y \<noteq> c"
    using hd_dropWhile [of "\<lambda>x. x = c" "rev s"] by auto
  then show ?thesis
    using Cons by (simp add: rstrip_def)
qed

text \<open>Every machine a caller can have has its head at a zero-based index.\<close>

lemma reachable_head_nonneg: "reachable m \<Longrightarrow> 0 \<le> head_position m"
proof (induction rule: reachable.induct)
  case (by_init sts ia ta q0 acc tr)
  show ?case by (simp add: init_def)
next
  case (by_load_tape m s)
  show ?case by (simp add: load_tape_def)
next
  case (by_step m b m')
  then show ?case by (simp add: step_head_nonneg)
next
  case (by_run m n out m')
  from run_loop_result [OF by_run.IH, of n 0 0] by_run.hyps(2)
  show ?case by (auto simp add: run_def)
qed

text \<open>A move to the right from the last cell leaves the head one past the tape: the
  blank is appended by the padding loop of the next call.\<close>

lemma step_right_from_last_cell:
  assumes "0 \<le> head_position m"
    and "head_position m + 1 = int (length (tape m))"
    and "current_state m \<notin> accept_states m"
    and "transitions m (current_state m, symbol_under_head m) = Some (q, w, ''R'')"
  shows "\<exists>m'. step m = Inr (True, m') \<and> head_position m' = int (length (tape m'))"
  using assms pad_tape_id [of "head_position m" "tape m"]
  by (simp add: step_cases apply_rule_def)

text \<open>On a tape of one-character symbols, stripping the trailing blanks of the joined
  string is stripping the trailing blank cells.\<close>

lemma rstrip_single_chars:
  "\<forall>x \<in> set t. length x = 1 \<Longrightarrow>
   rstrip CHR ''_'' (concat t) = concat (rev (dropWhile (\<lambda>x. x = ''_'') (rev t)))"
proof (induction t rule: rev_induct)
  case Nil
  show ?case by (simp add: rstrip_def)
next
  case (snoc x t)
  then obtain c where x: "x = [c]"
    by (cases x) auto
  from snoc have IH: "rstrip CHR ''_'' (concat t) = concat (rev (dropWhile (\<lambda>x. x = ''_'') (rev t)))"
    by simp
  show ?case
  proof (cases "c = CHR ''_''")
    case True
    then show ?thesis
      using IH by (simp add: x rstrip_def)
  next
    case False
    then show ?thesis
      by (simp add: x rstrip_def)
  qed
qed

subsection \<open>The cipher\<close>

lemma str_index_nth:
  "distinct xs \<Longrightarrow> i < length xs \<Longrightarrow> str_index xs (xs ! i) = Inr (int i)"
proof (induction xs arbitrary: i)
  case Nil
  then show ?case by simp
next
  case (Cons x xs)
  show ?case
  proof (cases i)
    case 0
    then show ?thesis by simp
  next
    case (Suc j)
    with Cons.prems have "j < length xs" "xs ! j \<in> set xs" "x \<notin> set xs" "distinct xs"
      by simp_all
    with Cons.IH [of j] Suc show ?thesis by auto
  qed
qed

lemma length_alphabet: "length alphabet = 26"
  by (simp add: alphabet_def)

lemma distinct_alphabet: "distinct alphabet"
  by (simp add: alphabet_def)

lemma space_not_in_alphabet: "CHR '' '' \<notin> set alphabet"
  by (simp add: alphabet_def)

lemma py_getitem_alphabet:
  "0 \<le> i \<Longrightarrow> i < 26 \<Longrightarrow> py_getitem alphabet i = Inr (alphabet ! nat i)"
  by (simp add: py_getitem_def length_alphabet)

text \<open>
  One letter of the alphabet through both loop bodies: the encrypting branch yields a
  letter of the alphabet, and the decrypting branch takes that letter back.
\<close>

lemma alphabet_letter:
  assumes "c \<in> set alphabet"
  shows "\<exists>c'. c' \<in> set alphabet \<and> c' \<noteq> CHR '' '' \<and>
           (case str_index alphabet c of
              Inl e \<Rightarrow> Inl e
            | Inr pos \<Rightarrow> py_getitem alphabet ((pos + k) mod 26)) = Inr c' \<and>
           (case str_index alphabet c' of
              Inl e \<Rightarrow> Inl e
            | Inr pos \<Rightarrow> py_getitem alphabet ((pos - k) mod 26)) = Inr c"
proof -
  from assms obtain i where i: "i < 26" "alphabet ! i = c"
    by (auto simp add: in_set_conv_nth length_alphabet)
  define j where "j = nat ((int i + k) mod 26)"
  have j: "j < 26" "int j = (int i + k) mod 26"
    by (simp_all add: j_def nat_less_iff)
  define c' where "c' = alphabet ! j"
  have mem: "c' \<in> set alphabet"
    using j(1) by (simp add: c'_def length_alphabet)
  then have ns: "c' \<noteq> CHR '' ''"
    using space_not_in_alphabet by auto
  have ic: "str_index alphabet c = Inr (int i)"
    using str_index_nth [OF distinct_alphabet, of i] i by (simp add: length_alphabet)
  have ic': "str_index alphabet c' = Inr (int j)"
    using str_index_nth [OF distinct_alphabet, of j] j(1) by (simp add: length_alphabet c'_def)
  have enc: "py_getitem alphabet ((int i + k) mod 26) = Inr c'"
    using py_getitem_alphabet [of "(int i + k) mod 26"] by (simp add: c'_def j_def)
  have "(int j - k) mod 26 = int i mod 26"
    unfolding j(2) by (simp add: mod_diff_left_eq)
  then have inv: "(int j - k) mod 26 = int i"
    using i(1) by simp
  have dec: "py_getitem alphabet ((int j - k) mod 26) = Inr c"
    unfolding inv using py_getitem_alphabet [of "int i"] i by simp
  show ?thesis
    using mem ns ic ic' enc dec by auto
qed

lemma caesar_loops_roundtrip:
  "\<exists>e. (\<forall>result. caesar_encrypt_loop m k result = Inr (result @ e)) \<and>
       (\<forall>result. caesar_decrypt_loop e k result = Inr (result @ m))"
proof (induction m)
  case Nil
  have "(\<forall>result. caesar_encrypt_loop [] k result = Inr (result @ [])) \<and>
        (\<forall>result. caesar_decrypt_loop [] k result = Inr (result @ []))"
    by simp
  then show ?case ..
next
  case (Cons c m)
  then obtain e where
    e: "\<And>result. caesar_encrypt_loop m k result = Inr (result @ e)"
       "\<And>result. caesar_decrypt_loop e k result = Inr (result @ m)"
    by blast
  consider (space) "c = CHR '' ''" | (letter) "c \<noteq> CHR '' ''" "c \<in> set alphabet"
    | (other) "c \<noteq> CHR '' ''" "c \<notin> set alphabet"
    by blast
  then show ?case
  proof cases
    case space
    have "(\<forall>result. caesar_encrypt_loop (c # m) k result = Inr (result @ c # e)) \<and>
          (\<forall>result. caesar_decrypt_loop (c # e) k result = Inr (result @ c # m))"
      using space by (simp add: e)
    then show ?thesis ..
  next
    case letter
    from alphabet_letter [OF letter(2), of k] obtain c' where
      c': "c' \<in> set alphabet" "c' \<noteq> CHR '' ''"
        "(case str_index alphabet c of
            Inl e \<Rightarrow> Inl e
          | Inr pos \<Rightarrow> py_getitem alphabet ((pos + k) mod 26)) = Inr c'"
        "(case str_index alphabet c' of
            Inl e \<Rightarrow> Inl e
          | Inr pos \<Rightarrow> py_getitem alphabet ((pos - k) mod 26)) = Inr c"
      by blast
    have "\<forall>result. caesar_encrypt_loop (c # m) k result = Inr (result @ c' # e)"
      using letter c'(3) by (auto simp add: e split: sum.splits)
    moreover have "\<forall>result. caesar_decrypt_loop (c' # e) k result = Inr (result @ c # m)"
      using c'(1,2,4) by (auto simp add: e split: sum.splits)
    ultimately show ?thesis by blast
  next
    case other
    have "(\<forall>result. caesar_encrypt_loop (c # m) k result = Inr (result @ c # e)) \<and>
          (\<forall>result. caesar_decrypt_loop (c # e) k result = Inr (result @ c # m))"
      using other by (simp add: e)
    then show ?thesis ..
  qed
qed

text \<open>The second test case of the repository, and a negative shift on a message with
  characters outside the alphabet.\<close>

lemma caesar_examples:
  "caesar_encrypt ''HOLA MUNDO'' 1 = Inr ''IPMB NVOEP'' \<and>
   caesar_decrypt ''IPMB NVOEP'' 1 = Inr ''HOLA MUNDO'' \<and>
   caesar_encrypt ''Zz 9!'' (- 27) = Inr ''Yz 9!''"
  by (simp add: caesar_encrypt_def caesar_decrypt_def alphabet_def py_getitem_def)

text \<open>A message without letters of the alphabet passes through both loops unchanged.\<close>

lemma caesar_loops_other:
  "set m \<inter> set alphabet = {} \<Longrightarrow>
   caesar_encrypt_loop m k result = Inr (result @ m) \<and>
   caesar_decrypt_loop m k result = Inr (result @ m)"
  by (induction m arbitrary: result) auto

section \<open>Properties of the engine\<close>

text \<open>
  C1. With the head at a zero-based index (not negative, as it is in every machine a
  caller can have, by \<open>reachable_head_nonneg\<close>), whatever the specification, the tape
  and the state are, \<^verbatim>\<open>step\<close> returns a boolean, and it returns \<^verbatim>\<open>False\<close>
  exactly when the current state is an accept state or the table has no entry for the
  current state and the symbol under the head after right-padding with blanks; when
  it returns \<^verbatim>\<open>True\<close> the machine is the result of applying the table's entry
  for that pair.
\<close>

theorem step_halts_iff:
  assumes "0 \<le> head_position m"
  shows "\<exists>b m'. step m = Inr (b, m') \<and>
     (b = False \<longleftrightarrow>
        (current_state m \<in> accept_states m \<or>
         transitions m (current_state m, symbol_under_head m) = None)) \<and>
     (b = True \<longrightarrow>
        (\<exists>r. transitions m (current_state m, symbol_under_head m) = Some r \<and>
             m' = apply_rule m r))"
  by (auto simp add: step_cases [OF assms] split: option.splits)

theorem step_halts_iff_witness:
  "0 \<le> head_position (load_tape (scenario_C {} {} {}) ''AAA'') \<and>
   (\<exists>b m'. step (load_tape (scenario_C {} {} {}) ''AAA'') = Inr (b, m') \<and>
     (b = False \<longleftrightarrow>
        (current_state (load_tape (scenario_C {} {} {}) ''AAA'')
           \<in> accept_states (load_tape (scenario_C {} {} {}) ''AAA'') \<or>
         transitions (load_tape (scenario_C {} {} {}) ''AAA'')
           (current_state (load_tape (scenario_C {} {} {}) ''AAA''),
            symbol_under_head (load_tape (scenario_C {} {} {}) ''AAA'')) = None)) \<and>
     (b = True \<longrightarrow>
        (\<exists>r. transitions (load_tape (scenario_C {} {} {}) ''AAA'')
               (current_state (load_tape (scenario_C {} {} {}) ''AAA''),
                symbol_under_head (load_tape (scenario_C {} {} {}) ''AAA'')) = Some r \<and>
             m' = apply_rule (load_tape (scenario_C {} {} {}) ''AAA'') r)))"
  using step_halts_iff [of "load_tape (scenario_C {} {} {}) ''AAA''"]
  by (simp add: load_tape_def scenario_C_def init_def)

text \<open>
  C2, as stated, fails. The machine \<open>finalizer\<close>, loaded with the empty input, has the
  tape \<^verbatim>\<open>['_']\<close>. Its one \<^verbatim>\<open>step\<close> moves the head right from the last cell: the
  head is then 1 and the tape still has length 1, so the head is not below the length
  of the tape.
\<close>

theorem head_validity_counterexample:
  "call_step_n 1 (load_tape finalizer '''') =
     Inr (finalizer\<lparr>tape := [''_''], head_position := 1, current_state := ''q_accept''\<rparr>) \<and>
   \<not> head_position (finalizer\<lparr>tape := [''_''], head_position := 1,
                                current_state := ''q_accept''\<rparr>)
       < int (length (tape (finalizer\<lparr>tape := [''_''], head_position := 1,
                                        current_state := ''q_accept''\<rparr>)))"
  by (simp add: load_tape_def finalizer_def init_def step_def pad_tape.simps
      py_getitem_def py_setitem_def)

text \<open>
  C2, amended. After \<^verbatim>\<open>load_tape\<close> and any number of \<^verbatim>\<open>step\<close> calls, no call
  raises, and the head is at least 0 and at most the length of the tape. When the head
  is on the last cell and the next call applies an entry of direction \<^verbatim>\<open>'R'\<close>, that
  call returns \<^verbatim>\<open>True\<close> and leaves the head equal to the length of the tape.
\<close>

theorem head_within_padded_tape:
  "\<exists>m'. call_step_n k (load_tape m s) = Inr m' \<and> 0 \<le> head_position m' \<and>
        head_position m' \<le> int (length (tape m')) \<and>
        (head_position m' + 1 = int (length (tape m')) \<and>
         current_state m' \<notin> accept_states m' \<and>
         (\<exists>q w. transitions m' (current_state m', symbol_under_head m') = Some (q, w, ''R''))
         \<longrightarrow> (\<exists>m''. step m' = Inr (True, m'') \<and>
                    head_position m'' = int (length (tape m''))))"
proof -
  have "0 \<le> head_position (load_tape m s)"
    "head_position (load_tape m s) \<le> int (length (tape (load_tape m s)))"
    by (simp_all add: load_tape_def)
  from call_step_n_inv [OF this, of k] obtain m' where
    m': "call_step_n k (load_tape m s) = Inr m'" "0 \<le> head_position m'"
      "head_position m' \<le> int (length (tape m'))"
    by blast
  show ?thesis
    using m' step_right_from_last_cell [OF m'(2)] by auto
qed

theorem head_within_padded_tape_witness:
  "\<exists>m'. call_step_n 0 (load_tape finalizer '''') = Inr m' \<and> 0 \<le> head_position m' \<and>
        head_position m' \<le> int (length (tape m')) \<and>
        head_position m' + 1 = int (length (tape m')) \<and>
        current_state m' \<notin> accept_states m' \<and>
        (\<exists>q w. transitions m' (current_state m', symbol_under_head m') = Some (q, w, ''R'')) \<and>
        (\<exists>m''. step m' = Inr (True, m'') \<and> head_position m'' = int (length (tape m'')))"
  using head_within_padded_tape [of 0 finalizer "''''"]
  by (simp add: load_tape_def finalizer_def init_def symbol_under_head_def)

text \<open>
  C3. Two machine objects with the same specification, whatever tape, head and state
  earlier runs left in them, loaded with the same input and run with the same
  \<open>max_steps\<close>, give the same result: the same returned tape content, the same
  number of performed transitions, the same number of \<^verbatim>\<open>step\<close> calls and the same
  final machine.
\<close>

theorem run_deterministic:
  assumes "same_specification m1 m2"
  shows "run (load_tape m1 s) n = run (load_tape m2 s) n \<and>
         run_loop n 0 0 (load_tape m1 s) = run_loop n 0 0 (load_tape m2 s)"
  by (simp add: load_tape_same_specification [OF assms])

theorem run_deterministic_witness:
  "same_specification (scenario_C {} {} {})
     ((scenario_C {} {} {})\<lparr>tape := [''A'', ''_''], head_position := 1\<rparr>) \<and>
   run (load_tape (scenario_C {} {} {}) ''AAA'') 100000 =
     run (load_tape ((scenario_C {} {} {})\<lparr>tape := [''A'', ''_''], head_position := 1\<rparr>)
            ''AAA'') 100000 \<and>
   run_loop 100000 0 0 (load_tape (scenario_C {} {} {}) ''AAA'') =
     run_loop 100000 0 0
       (load_tape ((scenario_C {} {} {})\<lparr>tape := [''A'', ''_''], head_position := 1\<rparr>) ''AAA'')"
proof -
  have same: "same_specification (scenario_C {} {} {})
     ((scenario_C {} {} {})\<lparr>tape := [''A'', ''_''], head_position := 1\<rparr>)"
    by (simp add: same_specification_def)
  from run_deterministic [OF same, of "''AAA''" 100000] same show ?thesis
    by simp
qed

text \<open>
  C4. For \<open>n \<ge> 0\<close> and a machine whose head is at a zero-based index,
  \<^verbatim>\<open>run(n)\<close> returns, whatever the transition table is, after at most \<open>n\<close> calls of
  \<^verbatim>\<open>step\<close>; the number of performed transitions is at most \<open>n\<close> too, and the calls
  are at most one more than the transitions.
\<close>

theorem run_step_bound:
  assumes "0 \<le> n" and "0 \<le> head_position m"
  shows "\<exists>steps calls m'. run_loop n 0 0 m = Inr (steps, calls, m') \<and>
           (\<exists>out. run m n = Inr (out, m')) \<and>
           int calls \<le> n \<and> 0 \<le> steps \<and> steps \<le> n \<and> int calls \<le> steps + 1"
proof -
  from run_loop_result [OF assms(2), of n 0 0]
  obtain steps calls m' where
    r: "run_loop n 0 0 m = Inr (steps, calls, m')"
    and p: "0 \<le> steps" "steps \<le> max 0 n" "int calls - int 0 \<le> max 0 (n - 0)"
      "int calls - int 0 \<le> steps - 0 + 1"
    by blast
  show ?thesis
    using p assms(1) by (simp add: r run_def)
qed

theorem run_step_bound_witness:
  "(0::int) \<le> 3 \<and> 0 \<le> head_position (load_tape (blank_mover ''R'') '''') \<and>
   (\<exists>steps calls m'.
      run_loop 3 0 0 (load_tape (blank_mover ''R'') '''') = Inr (steps, calls, m') \<and>
      (\<exists>out. run (load_tape (blank_mover ''R'') '''') 3 = Inr (out, m')) \<and>
      int calls \<le> 3 \<and> 0 \<le> steps \<and> steps \<le> 3 \<and> int calls \<le> steps + 1)"
  using run_step_bound [of 3 "load_tape (blank_mover ''R'') ''''"]
  by (simp add: load_tape_def)

text \<open>
  C5. A step that applies an entry with direction \<^verbatim>\<open>'L'\<close> while the head is at
  index 0 returns \<^verbatim>\<open>True\<close>, leaves the head at 0, and the new tape is one blank
  followed by the tape as it was after the write (a tape that was empty is first
  padded to one blank cell, which the write then overwrites): every cell \<open>i\<close> of the
  old tape is found, with its content after the write, at cell \<open>i + 1\<close>.
\<close>

theorem step_left_growth:
  assumes "head_position m = 0"
    and "current_state m \<notin> accept_states m"
    and "transitions m (current_state m, symbol_under_head m) =
           Some (new_state, write_symbol, ''L'')"
  shows "\<exists>m'. step m = Inr (True, m') \<and> head_position m' = 0 \<and>
           current_state m' = new_state \<and>
           tape m' = ''_'' # (if tape m = [] then [''_''] else tape m)[0 := write_symbol] \<and>
           (\<forall>i < length (tape m). tape m' ! (i + 1) = (tape m)[0 := write_symbol] ! i) \<and>
           (tape m \<noteq> [] \<longrightarrow> length (tape m') = length (tape m) + 1)"
proof -
  have "0 \<le> head_position m"
    using assms(1) by simp
  from step_cases [OF this]
  have "step m = Inr (True, apply_rule m (new_state, write_symbol, ''L''))"
    using assms(2,3) by simp
  then show ?thesis
    using assms(1) by (auto simp add: apply_rule_def pad_tape_zero)
qed

theorem step_left_growth_witness:
  "head_position (load_tape left_writer ''AC'') = 0 \<and>
   current_state (load_tape left_writer ''AC'') \<notin> accept_states (load_tape left_writer ''AC'') \<and>
   transitions (load_tape left_writer ''AC'')
     (current_state (load_tape left_writer ''AC''), symbol_under_head (load_tape left_writer ''AC''))
     = Some (''q1'', ''B'', ''L'') \<and>
   (\<exists>m'. step (load_tape left_writer ''AC'') = Inr (True, m') \<and> head_position m' = 0 \<and>
      current_state m' = ''q1'' \<and> tape m' = [''_'', ''B'', ''C'', ''_''])"
proof -
  have a: "head_position (load_tape left_writer ''AC'') = 0"
    by (simp add: load_tape_def)
  have b: "current_state (load_tape left_writer ''AC'') \<notin> accept_states (load_tape left_writer ''AC'')"
    by (simp add: load_tape_def left_writer_def init_def)
  have c: "transitions (load_tape left_writer ''AC'')
     (current_state (load_tape left_writer ''AC''), symbol_under_head (load_tape left_writer ''AC''))
     = Some (''q1'', ''B'', ''L'')"
    by (simp add: load_tape_def left_writer_def init_def symbol_under_head_def)
  from step_left_growth [OF a b c] show ?thesis
    using a b c by (auto simp add: load_tape_def)
qed

text \<open>
  C6. In an accept state \<^verbatim>\<open>step\<close> returns \<^verbatim>\<open>False\<close> and leaves every field of the
  machine as it was: the tape is neither read nor padded (the result is the same for
  every tape and every head position, also one outside the tape), and head and state
  are unchanged.
\<close>

theorem step_accept_frame:
  "current_state m \<in> accept_states m \<Longrightarrow> step m = Inr (False, m)"
  by (simp add: step_def)

theorem step_accept_frame_witness:
  "current_state (load_tape scenario_B ''XYZ'') \<in> accept_states (load_tape scenario_B ''XYZ'') \<and>
   step (load_tape scenario_B ''XYZ'') = Inr (False, load_tape scenario_B ''XYZ'')"
  using step_accept_frame [of "load_tape scenario_B ''XYZ''"]
  by (simp add: load_tape_def scenario_B_def init_def)

text \<open>
  C7. \<^verbatim>\<open>run(max_steps)\<close>, on a machine whose head is at a zero-based index, returns
  for every table and every budget, and what it returns is \<^verbatim>\<open>get_tape_content()\<close> of
  the machine as the loop left it. \<^verbatim>\<open>get_tape_content()\<close> of any machine is the
  joined tape without its trailing run of \<^verbatim>\<open>'_'\<close>: the joined tape is the content
  followed by blanks only, and the content does not end in a blank; whatever comes
  before, leading blanks included, is kept.
\<close>

theorem run_returns_tape_content:
  assumes "0 \<le> head_position m"
  shows "\<exists>steps calls m'. run_loop n 0 0 m = Inr (steps, calls, m') \<and>
           run m n = Inr (get_tape_content m', m') \<and>
           (\<exists>k. concat (tape m') = get_tape_content m' @ replicate k CHR ''_'') \<and>
           (get_tape_content m' = [] \<or> last (get_tape_content m') \<noteq> CHR ''_'') \<and>
           (\<exists>k. concat (tape m) = get_tape_content m @ replicate k CHR ''_'') \<and>
           (get_tape_content m = [] \<or> last (get_tape_content m) \<noteq> CHR ''_'')"
proof -
  from run_loop_result [OF assms, of n 0 0]
  obtain steps calls m' where r: "run_loop n 0 0 m = Inr (steps, calls, m')"
    by blast
  have "run m n = Inr (get_tape_content m', m')"
    by (simp add: run_def r get_tape_content_def)
  moreover have "\<exists>k. concat (tape x) = get_tape_content x @ replicate k CHR ''_''" for x
    unfolding get_tape_content_def by (rule rstrip_decomp)
  moreover have "get_tape_content x = [] \<or> last (get_tape_content x) \<noteq> CHR ''_''" for x
    unfolding get_tape_content_def by (rule rstrip_last)
  ultimately show ?thesis
    using r by blast
qed

theorem run_returns_tape_content_witness:
  "0 \<le> head_position (load_tape left_writer ''AC'') \<and>
   (\<exists>m'. run_loop 100000 0 0 (load_tape left_writer ''AC'') = Inr (1, 2, m') \<and>
      run (load_tape left_writer ''AC'') 100000 = Inr (get_tape_content m', m') \<and>
      tape m' = [''_'', ''B'', ''C'', ''_''] \<and>
      get_tape_content m' = ''_BC'')"
proof -
  have h: "0 \<le> head_position (load_tape left_writer ''AC'')"
    by (simp add: load_tape_def)
  have ev: "run_loop 100000 0 0 (load_tape left_writer ''AC'') =
      Inr (1, 2, (load_tape left_writer ''AC'')\<lparr>tape := [''_'', ''B'', ''C'', ''_''],
                                                 current_state := ''q1''\<rparr>)"
    by (simp add: load_tape_def left_writer_def init_def step_def pad_tape.simps
        py_getitem_def py_setitem_def run_loop.simps)
  from run_returns_tape_content [OF h, of 100000]
  obtain steps calls m' where
    "run_loop 100000 0 0 (load_tape left_writer ''AC'') = Inr (steps, calls, m')"
    "run (load_tape left_writer ''AC'') 100000 = Inr (get_tape_content m', m')"
    by blast
  then show ?thesis
    using h by (auto simp add: ev get_tape_content_def rstrip_def)
qed

text \<open>The three ways a run stops, each returning the tape content: in an accept state
  (scenario B), on a missing table entry (scenario A, the empty table), and on the
  step budget (scenario C cut after two transitions).\<close>

lemma run_stops_three_ways:
  "run (load_tape scenario_B ''XYZ'') 100000 = Inr (''XYZ'', load_tape scenario_B ''XYZ'') \<and>
   run (load_tape (init sts ia ta q {} Map.empty) ''AB'') 100000 =
     Inr (''AB'', load_tape (init sts ia ta q {} Map.empty) ''AB'') \<and>
   run (load_tape (scenario_C sts ia ta) ''AAA'') 2 =
     Inr (''AAA'', (load_tape (scenario_C sts ia ta) ''AAA'')\<lparr>head_position := 2\<rparr>)"
  by (simp add: load_tape_def scenario_B_def scenario_C_def init_def step_def pad_tape.simps
      py_getitem_def py_setitem_def run_def run_loop.simps rstrip_def)

text \<open>
  C8. \<^verbatim>\<open>load_tape(s)\<close> sets the tape to the characters of \<open>s\<close> followed by one blank,
  the head to 0 and the current state to the initial state; the specification is kept,
  and the tape, head and state the machine had before do not matter.
\<close>

theorem load_tape_resets:
  "tape (load_tape m s) = map (\<lambda>c. [c]) s @ [''_''] \<and>
   length (tape (load_tape m s)) = length s + 1 \<and>
   head_position (load_tape m s) = 0 \<and>
   current_state (load_tape m s) = initial_state m \<and>
   same_specification (load_tape m s) m \<and>
   load_tape (m\<lparr>tape := t, head_position := h, current_state := q\<rparr>) s = load_tape m s"
  by (simp add: load_tape_def same_specification_def)

text \<open>
  C9. Scenario C on the input \<^verbatim>\<open>"AAA"\<close>: the first three \<^verbatim>\<open>step\<close> calls return
  \<^verbatim>\<open>True\<close> and move the head to 1, 2 and 3; the fourth returns \<^verbatim>\<open>False\<close>, the
  table having no entry for \<^verbatim>\<open>(q0, '_')\<close>; \<^verbatim>\<open>get_tape_content()\<close> is then
  \<^verbatim>\<open>"AAA"\<close>. \<^verbatim>\<open>run()\<close> with its default budget counts 3 transitions in 4 calls
  and returns \<^verbatim>\<open>"AAA"\<close>.
\<close>

theorem scenario_C_halts_after_three:
  "step (load_tape (scenario_C sts ia ta) ''AAA'') =
     Inr (True, (load_tape (scenario_C sts ia ta) ''AAA'')\<lparr>head_position := 1\<rparr>) \<and>
   step ((load_tape (scenario_C sts ia ta) ''AAA'')\<lparr>head_position := 1\<rparr>) =
     Inr (True, (load_tape (scenario_C sts ia ta) ''AAA'')\<lparr>head_position := 2\<rparr>) \<and>
   step ((load_tape (scenario_C sts ia ta) ''AAA'')\<lparr>head_position := 2\<rparr>) =
     Inr (True, (load_tape (scenario_C sts ia ta) ''AAA'')\<lparr>head_position := 3\<rparr>) \<and>
   step ((load_tape (scenario_C sts ia ta) ''AAA'')\<lparr>head_position := 3\<rparr>) =
     Inr (False, (load_tape (scenario_C sts ia ta) ''AAA'')\<lparr>head_position := 3\<rparr>) \<and>
   symbol_under_head ((load_tape (scenario_C sts ia ta) ''AAA'')\<lparr>head_position := 3\<rparr>) = ''_'' \<and>
   transitions (scenario_C sts ia ta) (''q0'', ''_'') = None \<and>
   get_tape_content ((load_tape (scenario_C sts ia ta) ''AAA'')\<lparr>head_position := 3\<rparr>) = ''AAA'' \<and>
   run_loop 100000 0 0 (load_tape (scenario_C sts ia ta) ''AAA'') =
     Inr (3, 4, (load_tape (scenario_C sts ia ta) ''AAA'')\<lparr>head_position := 3\<rparr>) \<and>
   run (load_tape (scenario_C sts ia ta) ''AAA'') 100000 =
     Inr (''AAA'', (load_tape (scenario_C sts ia ta) ''AAA'')\<lparr>head_position := 3\<rparr>)"
  by (simp add: load_tape_def scenario_C_def init_def step_def pad_tape.simps
      py_getitem_def py_setitem_def run_def run_loop.simps get_tape_content_def rstrip_def
      symbol_under_head_def)

section \<open>Properties of the cipher\<close>

text \<open>
  C10. For every message and every integer shift, \<^verbatim>\<open>caesar_encrypt\<close> returns a
  string (it raises nothing), and \<^verbatim>\<open>caesar_decrypt\<close> of that string with the same
  shift returns the message.
\<close>

theorem caesar_roundtrip:
  "\<exists>e. caesar_encrypt m k = Inr e \<and> caesar_decrypt e k = Inr m"
  using caesar_loops_roundtrip [of m k]
  by (auto simp add: caesar_encrypt_def caesar_decrypt_def)

end
